theory Spec2Isabelle
  imports Complex_Main
begin

section \<open>The WAMIT GDF importer (gdf-import.py)\<close>

text \<open>
  The importer is the function \<^verbatim>\<open>import_wamit_gdf_operator(context, filepath)\<close>.
  It reads the lines of the file, sweeps them once with a flag \<^verbatim>\<open>in_header\<close>, and
  hands the collected vertices and faces to the host. The model takes the list
  \<^verbatim>\<open>lines\<close> (what \<^verbatim>\<open>file.readlines()\<close> returns, each line with its line break)
  as its input; a file that cannot be opened or decoded is outside the model, and the
  calls into the host are taken to return.

  Python's \<^verbatim>\<open>float(value)\<close> is a parameter \<open>pfloat\<close> of the model: it gives the
  number a token denotes, or \<open>None\<close> where Python raises \<^verbatim>\<open>ValueError\<close>. The type
  \<open>'v\<close> of numbers is a parameter too; the code uses only \<^verbatim>\<open>0.0\<close> and the test
  \<^verbatim>\<open>== 1\<close> on it.
\<close>

subsection \<open>Tokens of a line\<close>

text \<open>
  \<^verbatim>\<open>lines[i].strip().split()\<close>: the maximal runs of characters that are not white
  space. A character is a code point below 256; the white space of \<^verbatim>\<open>str.split\<close>
  in that range is 9 to 13, 28 to 32, 133 and 160.
\<close>

definition is_space :: "char \<Rightarrow> bool" where
  "is_space c =
     (let n = (of_char c :: nat)
      in (9 \<le> n \<and> n \<le> 13) \<or> (28 \<le> n \<and> n \<le> 32) \<or> n = 133 \<or> n = 160)"

fun split_from :: "string \<Rightarrow> string \<Rightarrow> string list" where
  "split_from cur [] = (if cur = [] then [] else [cur])"
| "split_from cur (c # cs) =
     (if is_space c
      then (if cur = [] then split_from [] cs else cur # split_from [] cs)
      else split_from (cur @ [c]) cs)"

definition strip_split :: "string \<Rightarrow> string list" where
  "strip_split line = split_from [] line"

subsection \<open>Exceptions and list access\<close>

datatype error = ValueError string | IndexError

text \<open>\<^verbatim>\<open>words[i]\<close>: a negative index counts from the end.\<close>

definition getitem :: "'a list \<Rightarrow> int \<Rightarrow> error + 'a" where
  "getitem xs i =
     (if 0 \<le> i \<and> i < int (length xs) then Inr (xs ! nat i)
      else if - int (length xs) \<le> i \<and> i < 0 then Inr (xs ! nat (int (length xs) + i))
      else Inl IndexError)"

text \<open>\<^verbatim>\<open>words.index(keyword)\<close>: the first position, \<^verbatim>\<open>ValueError\<close> when absent.\<close>

fun index :: "string list \<Rightarrow> string \<Rightarrow> error + nat" where
  "index [] k = Inl (ValueError k)"
| "index (w # ws) k =
     (if w = k then Inr 0
      else (case index ws k of Inl e \<Rightarrow> Inl e | Inr n \<Rightarrow> Inr (Suc n)))"

text \<open>\<^verbatim>\<open>range(a, b)\<close> on integers.\<close>

definition range_py :: "int \<Rightarrow> int \<Rightarrow> int list" where
  "range_py a b = [a..b - 1]"

subsection \<open>The variables of the sweep\<close>

record 'v locals =
  ulen :: 'v
  grav :: 'v
  isx :: 'v
  isy :: 'v
  npan :: 'v
  vertices :: "('v \<times> 'v \<times> 'v) list"
  faces :: "int list list"
  in_header :: bool
  console :: "string list"

text \<open>
  \<open>console\<close> is what \<^verbatim>\<open>print\<close> has written so far, one entry per call. A raise is
  \<open>Inl (e, s)\<close>: the exception and the variables at that moment.
\<close>

type_synonym 'v outcome = "(error \<times> 'v locals) + 'v locals"

definition print :: "string \<Rightarrow> 'v locals \<Rightarrow> 'v locals" where
  "print msg s = s\<lparr>console := console s @ [msg]\<rparr>"

definition keyword_list :: "string list" where
  "keyword_list = [''ULEN'', ''GRAV'', ''ISX'', ''ISY'', ''NPAN'']"

text \<open>Lines 202 to 216: echo the value, convert it, store it under the keyword.\<close>

definition store :: "string \<Rightarrow> 'v \<Rightarrow> 'v locals \<Rightarrow> 'v locals" where
  "store keyword x s =
     (if keyword = ''ULEN'' then s\<lparr>ulen := x\<rparr>
      else if keyword = ''GRAV'' then s\<lparr>grav := x\<rparr>
      else if keyword = ''ISX'' then s\<lparr>isx := x\<rparr>
      else if keyword = ''ISY'' then s\<lparr>isy := x\<rparr>
      else if keyword = ''NPAN'' then s\<lparr>npan := x\<rparr>
      else s)"

definition assign :: "(string \<Rightarrow> 'v option) \<Rightarrow> string \<Rightarrow> string \<Rightarrow> 'v locals \<Rightarrow> 'v outcome" where
  "assign pfloat keyword value s =
     (if keyword \<in> set keyword_list then
        (let s1 = print (keyword @ '': '' @ value) s
         in case pfloat value of
              None \<Rightarrow> Inl (ValueError value, s1)
            | Some x \<Rightarrow> Inr (store keyword x s1))
      else Inr s)"

text \<open>
  Lines 195 to 200: the body of the loop over the keywords. \<^verbatim>\<open>floor(len(words)/2)\<close>
  is the integer quotient; \<^verbatim>\<open>valueindex\<close> may be negative, and then counts from the
  end of \<^verbatim>\<open>words\<close>.
\<close>

definition keyword_step :: "(string \<Rightarrow> 'v option) \<Rightarrow> string list \<Rightarrow> 'v locals \<Rightarrow> string \<Rightarrow> 'v outcome" where
  "keyword_step pfloat words s keyword =
     (if keyword \<in> set words then
        (case index words keyword of
           Inl e \<Rightarrow> Inl (e, s)
         | Inr i \<Rightarrow>
             (let valueindex = int i - int (length words) div 2
              in case getitem words valueindex of
                   Inl e \<Rightarrow> Inl (e, s)
                 | Inr value \<Rightarrow> assign pfloat keyword value s))
      else Inr s)"

fun scan_keywords :: "(string \<Rightarrow> 'v option) \<Rightarrow> string list \<Rightarrow> 'v locals \<Rightarrow> string list \<Rightarrow> 'v outcome" where
  "scan_keywords pfloat words s [] = Inr s"
| "scan_keywords pfloat words s (k # ks) =
     (case keyword_step pfloat words s k of
        Inl e \<Rightarrow> Inl e
      | Inr s' \<Rightarrow> scan_keywords pfloat words s' ks)"

text \<open>
  Line 220: the list comprehension over \<^verbatim>\<open>range(0, 12, 3)\<close>. The conversions run
  from left to right; the first one that raises ends the comprehension, and
  \<^verbatim>\<open>vertices\<close> is not extended.
\<close>

definition float_at :: "(string \<Rightarrow> 'v option) \<Rightarrow> string list \<Rightarrow> int \<Rightarrow> error + 'v" where
  "float_at pfloat words j =
     (case getitem words j of
        Inl e \<Rightarrow> Inl e
      | Inr w \<Rightarrow> (case pfloat w of None \<Rightarrow> Inl (ValueError w) | Some x \<Rightarrow> Inr x))"

fun triples :: "(string \<Rightarrow> 'v option) \<Rightarrow> string list \<Rightarrow> int list \<Rightarrow> error + ('v \<times> 'v \<times> 'v) list" where
  "triples pfloat words [] = Inr []"
| "triples pfloat words (j # js) =
     (case float_at pfloat words j of Inl e \<Rightarrow> Inl e | Inr x \<Rightarrow>
     (case float_at pfloat words (j + 1) of Inl e \<Rightarrow> Inl e | Inr y \<Rightarrow>
     (case float_at pfloat words (j + 2) of Inl e \<Rightarrow> Inl e | Inr z \<Rightarrow>
     (case triples pfloat words js of Inl e \<Rightarrow> Inl e | Inr ts \<Rightarrow> Inr ((x, y, z) # ts)))))"

text \<open>Lines 219 to 221: one line of twelve tokens outside the header.\<close>

definition read_panel :: "(string \<Rightarrow> 'v option) \<Rightarrow> string \<Rightarrow> string list \<Rightarrow> 'v locals \<Rightarrow> 'v outcome" where
  "read_panel pfloat line words s =
     (let s1 = print (''Vertex Data: '' @ line) s
      in case triples pfloat words [0, 3, 6, 9] of
           Inl e \<Rightarrow> Inl (e, s1)
         | Inr ts \<Rightarrow>
             (let vs = vertices s1 @ ts
              in Inr (s1\<lparr>vertices := vs,
                        faces := faces s1 @ [range_py (int (length vs) - 4) (int (length vs))]\<rparr>)))"

text \<open>Lines 183 to 221: the body of the loop over the lines.\<close>

definition process_line :: "(string \<Rightarrow> 'v option) \<Rightarrow> 'v locals \<Rightarrow> string \<Rightarrow> 'v outcome" where
  "process_line pfloat s line =
     (let words = strip_split line
      in if in_header s then
           (if length words = 1
            then Inr ((print ''End of header'' s)\<lparr>in_header := False\<rparr>)
            else scan_keywords pfloat words s keyword_list)
         else
           (if length words = 12 then read_panel pfloat line words s else Inr s))"

fun sweep :: "(string \<Rightarrow> 'v option) \<Rightarrow> 'v locals \<Rightarrow> string list \<Rightarrow> 'v outcome" where
  "sweep pfloat s [] = Inr s"
| "sweep pfloat s (line # lines) =
     (case process_line pfloat s line of
        Inl e \<Rightarrow> Inl e
      | Inr s' \<Rightarrow> sweep pfloat s' lines)"

text \<open>Lines 153 to 180: the variables before the loop.\<close>

definition init :: "('v::zero) locals" where
  "init = \<lparr>ulen = 0, grav = 0, isx = 0, isy = 0, npan = 0,
           vertices = [], faces = [], in_header = True,
           console = [''Hello World'']\<rparr>"

subsection \<open>What the host receives\<close>

text \<open>
  Lines 223 to 243. The calls into the host are recorded, not interpreted: the mirror
  calls as a list, the arguments of \<^verbatim>\<open>mesh.from_pydata\<close> and of \<^verbatim>\<open>obj.scale\<close> as
  fields. The calls of lines 162 to 171, which create an empty object and link it to
  the scene before the file is looked at, are the same on every run and are left out.
\<close>

datatype host_call = Modifier_add string | Use_axis nat

record 'v imported =
  printed :: "string list"
  host_calls :: "host_call list"
  mesh_vertices :: "('v \<times> 'v \<times> 'v) list"
  mesh_faces :: "int list list"
  obj_scale :: "'v \<times> 'v \<times> 'v"

definition mirror_x :: "('v::{zero,one}) locals \<Rightarrow> string list \<times> host_call list" where
  "mirror_x s =
     (if isx s = 1
      then ([''X = 0 is a geometric plane of symmetry''], [Modifier_add ''MIRROR'', Use_axis 0])
      else ([], []))"

definition mirror_y :: "('v::{zero,one}) locals \<Rightarrow> string list \<times> host_call list" where
  "mirror_y s =
     (if isy s = 1
      then ([''Y = 0 is a geometric plane of symmetry''], [Modifier_add ''MIRROR'', Use_axis 1])
      else ([], []))"

definition finish :: "('v::{zero,one}) locals \<Rightarrow> 'v imported" where
  "finish s =
     \<lparr>printed = console s @ fst (mirror_x s) @ fst (mirror_y s)
                  @ [''WAMIT GDF file imported successfully.''],
      host_calls = snd (mirror_x s) @ snd (mirror_y s),
      mesh_vertices = vertices s,
      mesh_faces = faces s,
      obj_scale = (ulen s, ulen s, ulen s)\<rparr>"

definition import_wamit_gdf_operator ::
  "(string \<Rightarrow> ('v::{zero,one}) option) \<Rightarrow> string list \<Rightarrow> (error \<times> string list) + 'v imported" where
  "import_wamit_gdf_operator pfloat lines =
     (case sweep pfloat init lines of
        Inl (e, s) \<Rightarrow> Inl (e, console s)
      | Inr s \<Rightarrow> Inr (finish s))"

subsection \<open>A reading of decimal literals\<close>

text \<open>
  For the examples: the value of a plain decimal literal (an optional sign, digits,
  at most one point) as a rational number, \<open>None\<close> for any other token. Python's
  \<^verbatim>\<open>float\<close> rounds this value to a double and accepts more spellings; on the tokens of
  the examples below it raises nowhere this function gives a number, and it gives
  \<^verbatim>\<open>1.0\<close> exactly where this function gives 1.
\<close>

definition digit :: "char \<Rightarrow> nat option" where
  "digit c = (let n = (of_char c :: nat) in if 48 \<le> n \<and> n \<le> 57 then Some (n - 48) else None)"

fun digits :: "nat \<Rightarrow> string \<Rightarrow> nat option" where
  "digits acc [] = Some acc"
| "digits acc (c # cs) = (case digit c of None \<Rightarrow> None | Some d \<Rightarrow> digits (10 * acc + d) cs)"

definition decimal :: "string \<Rightarrow> rat option" where
  "decimal tok =
     (let neg = (take 1 tok = ''-'');
          body = (if take 1 tok = ''-'' \<or> take 1 tok = ''+'' then drop 1 tok else tok);
          ip = takeWhile (\<lambda>c. c \<noteq> CHR ''.'') body;
          fp = drop 1 (dropWhile (\<lambda>c. c \<noteq> CHR ''.'') body)
      in if ip @ fp = [] then None
         else (case digits 0 (ip @ fp) of
                 None \<Rightarrow> None
               | Some n \<Rightarrow> Some ((if neg then - 1 else 1) * (of_nat n / 10 ^ length fp))))"

subsection \<open>The variables an outcome ends with\<close>

definition locals_of :: "'v outcome \<Rightarrow> 'v locals" where
  "locals_of r = (case r of Inl (e, s) \<Rightarrow> s | Inr s \<Rightarrow> s)"

subsection \<open>The shape of the mesh\<close>

text \<open>Face \<open>i\<close> of a mesh of quadrilaterals whose vertices are stored face by face.\<close>

definition quad :: "nat \<Rightarrow> int list" where
  "quad i = [4 * int i, 4 * int i + 1, 4 * int i + 2, 4 * int i + 3]"

definition quad_mesh :: "'v locals \<Rightarrow> bool" where
  "quad_mesh s \<longleftrightarrow>
     length (vertices s) = 4 * length (faces s) \<and>
     faces s = map quad [0..<length (faces s)]"

subsection \<open>The header region and the five numbers\<close>

text \<open>
  The lines the loop handles as header lines, when it starts in the header: those before
  the first line of exactly one token.
\<close>

definition scalars :: "'v locals \<Rightarrow> 'v \<times> 'v \<times> 'v \<times> 'v \<times> 'v" where
  "scalars s = (ulen s, grav s, isx s, isy s, npan s)"

definition header_region :: "string list \<Rightarrow> string list" where
  "header_region lines = takeWhile (\<lambda>l. length (strip_split l) \<noteq> 1) lines"

subsection \<open>The variable a keyword names\<close>

definition variable :: "string \<Rightarrow> 'v locals \<Rightarrow> 'v" where
  "variable keyword s =
     (if keyword = ''ULEN'' then ulen s
      else if keyword = ''GRAV'' then grav s
      else if keyword = ''ISX'' then isx s
      else if keyword = ''ISY'' then isy s
      else npan s)"

subsection \<open>An outcome as the caller sees it, and an outcome with another count\<close>

text \<open>
  \<open>result_of\<close> is what lines 223 to 243 make of the outcome of the sweep (the importer
  is \<open>result_of\<close> after \<open>sweep\<close>); \<open>set_npan n r\<close> is the outcome \<open>r\<close> with \<open>n\<close> in the
  variable \<^verbatim>\<open>npan\<close>.
\<close>

definition result_of :: "('v::{zero,one}) outcome \<Rightarrow> (error \<times> string list) + 'v imported" where
  "result_of r = (case r of Inl (e, s) \<Rightarrow> Inl (e, console s) | Inr s \<Rightarrow> Inr (finish s))"

definition set_npan :: "'v \<Rightarrow> 'v outcome \<Rightarrow> 'v outcome" where
  "set_npan n r = (case r of Inl (e, s) \<Rightarrow> Inl (e, s\<lparr>npan := n\<rparr>) | Inr s \<Rightarrow> Inr (s\<lparr>npan := n\<rparr>))"

section \<open>Properties of the parts\<close>

lemma range_py_4: "b = a + 4 \<Longrightarrow> range_py a b = [a, a + 1, a + 2, a + 3]"
proof -
  assume b: "b = a + 4"
  have "[a..a + 3] = a # [a + 1..a + 3]"
    by (subst upto.simps) simp
  also have "[a + 1..a + 3] = (a + 1) # [a + 2..a + 3]"
    by (subst upto.simps) (simp add: add.commute)
  also have "[a + 2..a + 3] = (a + 2) # [a + 3..a + 3]"
    by (subst upto.simps) (simp add: add.commute)
  finally have four: "[a..a + 3] = [a, a + 1, a + 2, a + 3]" by simp
  have "b - 1 = a + 3" using b by simp
  then show ?thesis unfolding range_py_def using four by (simp only:)
qed

lemma index_present:
  "k \<in> set ws \<Longrightarrow> \<exists>i. index ws k = Inr i \<and> i < length ws"
  by (induction ws) auto

lemma getitem_value_slot:
  assumes "i < length ws"
  shows "\<exists>v \<in> set ws. getitem ws (int i - int (length ws) div 2) = Inr v"
proof (cases "0 \<le> int i - int (length ws) div 2")
  case True
  then have "getitem ws (int i - int (length ws) div 2) = Inr (ws ! nat (int i - int (length ws) div 2))"
    and "nat (int i - int (length ws) div 2) < length ws"
    using assms by (auto simp: getitem_def)
  then show ?thesis by (metis nth_mem)
next
  case False
  then have "getitem ws (int i - int (length ws) div 2)
               = Inr (ws ! nat (int (length ws) + (int i - int (length ws) div 2)))"
    and "nat (int (length ws) + (int i - int (length ws) div 2)) < length ws"
    using assms by (auto simp: getitem_def)
  then show ?thesis by (metis nth_mem)
qed

lemma keyword_step_cases:
  "keyword_step pf ws s k = Inr s \<or> (\<exists>v \<in> set ws. keyword_step pf ws s k = assign pf k v s)"
proof (cases "k \<in> set ws")
  case False
  then show ?thesis by (simp add: keyword_step_def)
next
  case True
  then obtain i where i: "index ws k = Inr i" "i < length ws"
    using index_present by blast
  then obtain v where "v \<in> set ws" "getitem ws (int i - int (length ws) div 2) = Inr v"
    using getitem_value_slot by blast
  with True i show ?thesis by (auto simp: keyword_step_def Let_def)
qed

lemma assign_Inl:
  "assign pf k v s = Inl (e, s') \<Longrightarrow> e = ValueError v \<and> pf v = None"
  by (auto simp: assign_def Let_def split: if_splits option.splits)

lemma store_mesh [simp]:
  "vertices (store k x s) = vertices s" "faces (store k x s) = faces s"
  "in_header (store k x s) = in_header s" "console (store k x s) = console s"
  by (simp_all add: store_def)

lemma print_fields [simp]:
  "vertices (print m s) = vertices s" "faces (print m s) = faces s"
  "in_header (print m s) = in_header s" "ulen (print m s) = ulen s"
  "grav (print m s) = grav s" "isx (print m s) = isx s" "isy (print m s) = isy s"
  "npan (print m s) = npan s" "console (print m s) = console s @ [m]"
  by (simp_all add: print_def)

lemma assign_mesh:
  "vertices (locals_of (assign pf k v s)) = vertices s \<and>
   faces (locals_of (assign pf k v s)) = faces s \<and>
   in_header (locals_of (assign pf k v s)) = in_header s"
  by (simp add: assign_def locals_of_def Let_def split: option.splits)

lemma keyword_step_mesh:
  "vertices (locals_of (keyword_step pf ws s k)) = vertices s \<and>
   faces (locals_of (keyword_step pf ws s k)) = faces s \<and>
   in_header (locals_of (keyword_step pf ws s k)) = in_header s"
  using keyword_step_cases [of pf ws s k] assign_mesh [of pf k _ s]
  by (auto simp: locals_of_def)

lemma scan_keywords_mesh:
  "vertices (locals_of (scan_keywords pf ws s ks)) = vertices s \<and>
   faces (locals_of (scan_keywords pf ws s ks)) = faces s \<and>
   in_header (locals_of (scan_keywords pf ws s ks)) = in_header s"
proof (induction ks arbitrary: s)
  case Nil
  then show ?case by (simp add: locals_of_def)
next
  case (Cons k ks)
  show ?case
  proof (cases "keyword_step pf ws s k")
    case (Inl e)
    then show ?thesis using keyword_step_mesh [of pf ws s k] by simp
  next
    case (Inr s')
    then show ?thesis using keyword_step_mesh [of pf ws s k] Cons.IH [of s']
      by (simp add: locals_of_def)
  qed
qed

lemma triples_length: "triples pf ws js = Inr ts \<Longrightarrow> length ts = length js"
  by (induction js arbitrary: ts) (auto split: sum.splits)

lemma quad_mesh_print [simp]: "quad_mesh (print m s) = quad_mesh s"
  by (simp add: quad_mesh_def)

lemma quad_mesh_init: "quad_mesh init"
  by (simp add: quad_mesh_def init_def)

lemma read_panel_quad_mesh:
  assumes "quad_mesh s"
  shows "quad_mesh (locals_of (read_panel pf l ws s))"
proof (cases "triples pf ws [0, 3, 6, 9]")
  case (Inl e)
  then show ?thesis using assms by (simp add: read_panel_def locals_of_def Let_def)
next
  case (Inr ts)
  then have len: "length ts = 4" using triples_length by fastforce
  let ?n = "length (faces s)"
  have v: "length (vertices s) = 4 * ?n" and f: "faces s = map quad [0..<?n]"
    using assms by (simp_all add: quad_mesh_def)
  have "range_py (int (length (vertices s @ ts)) - 4) (int (length (vertices s @ ts))) = quad ?n"
    using len v by (simp add: range_py_4 quad_def)
  moreover have "map quad [0..<Suc ?n] = faces s @ [quad ?n]"
    using f by simp
  ultimately show ?thesis
    using Inr len v by (simp add: read_panel_def locals_of_def Let_def quad_mesh_def)
qed

lemma process_line_quad_mesh:
  assumes "quad_mesh s"
  shows "quad_mesh (locals_of (process_line pf s l))"
proof -
  have "quad_mesh (locals_of (scan_keywords pf ws s ks))" for ws ks
    using assms scan_keywords_mesh [of pf ws s ks] by (simp add: quad_mesh_def)
  then show ?thesis
    using assms read_panel_quad_mesh [of s pf l]
    by (simp add: process_line_def Let_def locals_of_def quad_mesh_def)
qed

lemma sweep_quad_mesh:
  "quad_mesh s \<Longrightarrow> quad_mesh (locals_of (sweep pf s ls))"
proof (induction ls arbitrary: s)
  case Nil
  then show ?case by (simp add: locals_of_def)
next
  case (Cons l ls)
  show ?case
  proof (cases "process_line pf s l")
    case (Inl e)
    then show ?thesis using process_line_quad_mesh [OF Cons.prems, of pf l] by simp
  next
    case (Inr s')
    then show ?thesis
      using process_line_quad_mesh [OF Cons.prems, of pf l] Cons.IH [of s']
      by (simp add: locals_of_def)
  qed
qed

lemma quad_mesh_face: "quad_mesh s \<Longrightarrow> i < length (faces s) \<Longrightarrow> faces s ! i = quad i"
  by (metis quad_mesh_def add_0 length_map nth_map nth_upt)

lemma quad_mem: "k \<in> set (quad i) \<longleftrightarrow> 4 * int i \<le> k \<and> k < 4 * int i + 4"
  by (auto simp: quad_def)

lemma quad_mesh_owner:
  assumes "quad_mesh s" "j < length (vertices s)"
  shows "\<exists>!i. i < length (faces s) \<and> int j \<in> set (faces s ! i)"
proof -
  have len: "length (vertices s) = 4 * length (faces s)"
    using assms(1) by (simp add: quad_mesh_def)
  have mem: "i < length (faces s) \<Longrightarrow> int j \<in> set (faces s ! i) \<longleftrightarrow> i = j div 4" for i
    using assms(1) by (auto simp: quad_mesh_face quad_mem)
  have "j div 4 < length (faces s)" using assms(2) len by auto
  with mem show ?thesis by blast
qed

subsection \<open>The only exception is a token that is not a number\<close>

lemma keyword_step_Inl:
  assumes "keyword_step pf ws s k = Inl (e, s')"
  shows "\<exists>tok \<in> set ws. e = ValueError tok \<and> pf tok = None"
  using keyword_step_cases [of pf ws s k] assms assign_Inl by fastforce

lemma scan_keywords_Inl:
  "scan_keywords pf ws s ks = Inl (e, s') \<Longrightarrow> \<exists>tok \<in> set ws. e = ValueError tok \<and> pf tok = None"
proof (induction ks arbitrary: s)
  case Nil
  then show ?case by simp
next
  case (Cons k ks)
  then show ?case
    by (cases "keyword_step pf ws s k") (auto dest: keyword_step_Inl)
qed

lemma float_at_Inl:
  assumes "0 \<le> j" "j < int (length ws)" "float_at pf ws j = Inl e"
  shows "\<exists>tok \<in> set ws. e = ValueError tok \<and> pf tok = None"
proof -
  have "getitem ws j = Inr (ws ! nat j)" "ws ! nat j \<in> set ws"
    using assms(1,2) by (auto simp: getitem_def)
  then show ?thesis
    using assms(3) by (auto simp: float_at_def split: option.splits)
qed

lemma triples_Inl:
  assumes "\<forall>j \<in> set js. 0 \<le> j \<and> j + 2 < int (length ws)" "triples pf ws js = Inl e"
  shows "\<exists>tok \<in> set ws. e = ValueError tok \<and> pf tok = None"
  using assms
proof (induction js)
  case Nil
  then show ?case by simp
next
  case (Cons j js)
  have r: "0 \<le> j" "j < int (length ws)" "0 \<le> j + 1" "j + 1 < int (length ws)"
    "0 \<le> j + 2" "j + 2 < int (length ws)"
    using Cons.prems(1) by auto
  from Cons.prems(2) consider
      "float_at pf ws j = Inl e" | "float_at pf ws (j + 1) = Inl e"
    | "float_at pf ws (j + 2) = Inl e" | "triples pf ws js = Inl e"
    by (auto split: sum.splits)
  then show ?case
  proof cases
    case 1 then show ?thesis using float_at_Inl r by blast
  next
    case 2 then show ?thesis using float_at_Inl r by blast
  next
    case 3 then show ?thesis using float_at_Inl r by blast
  next
    case 4 then show ?thesis using Cons.IH Cons.prems(1) by simp
  qed
qed

lemma read_panel_Inl:
  assumes "length ws = 12" "read_panel pf l ws s = Inl (e, s')"
  shows "\<exists>tok \<in> set ws. e = ValueError tok \<and> pf tok = None"
proof -
  have "triples pf ws [0, 3, 6, 9] = Inl e"
    using assms(2) by (auto simp: read_panel_def Let_def split: sum.splits)
  moreover have "\<forall>j \<in> set [0, 3, 6, 9]. 0 \<le> j \<and> j + 2 < int (length ws)"
    using assms(1) by simp
  ultimately show ?thesis by (rule triples_Inl [rotated])
qed

lemma process_line_Inl:
  assumes "process_line pf s l = Inl (e, s')"
  shows "\<exists>tok \<in> set (strip_split l). e = ValueError tok \<and> pf tok = None"
  using assms scan_keywords_Inl read_panel_Inl
  by (fastforce simp: process_line_def Let_def split: if_splits)

lemma sweep_Inl:
  "sweep pf s ls = Inl (e, s') \<Longrightarrow>
   \<exists>l \<in> set ls. \<exists>tok \<in> set (strip_split l). e = ValueError tok \<and> pf tok = None"
proof (induction ls arbitrary: s)
  case Nil
  then show ?case by simp
next
  case (Cons l ls)
  show ?case
  proof (cases "process_line pf s l")
    case (Inl a)
    then have "process_line pf s l = Inl (e, s')" using Cons.prems by simp
    then show ?thesis using process_line_Inl by fastforce
  next
    case (Inr s1)
    then have "sweep pf s1 ls = Inl (e, s')" using Cons.prems by simp
    then show ?thesis using Cons.IH by fastforce
  qed
qed

subsection \<open>When the sweep is in the header\<close>

lemma read_panel_in_header:
  "in_header (locals_of (read_panel pf l ws s)) = in_header s"
  by (simp add: read_panel_def locals_of_def Let_def split: sum.splits)

lemma process_line_stays_in_header:
  assumes "in_header s" "2 \<le> length (strip_split l)"
  shows "in_header (locals_of (process_line pf s l))"
  using assms scan_keywords_mesh [of pf "strip_split l" s keyword_list]
  by (simp add: process_line_def)

lemma sweep_stays_in_header:
  assumes "in_header s" "\<forall>l \<in> set ls. 2 \<le> length (strip_split l)"
  shows "in_header (locals_of (sweep pf s ls))"
  using assms
proof (induction ls arbitrary: s)
  case Nil
  then show ?case by (simp add: locals_of_def)
next
  case (Cons l ls)
  have step: "in_header (locals_of (process_line pf s l))"
    using Cons.prems by (simp add: process_line_stays_in_header)
  show ?case
  proof (cases "process_line pf s l")
    case (Inl e)
    then show ?thesis using step by simp
  next
    case (Inr s')
    then have "in_header s'" using step by (simp add: locals_of_def)
    then show ?thesis using Inr Cons.IH [of s'] Cons.prems(2) by simp
  qed
qed

subsection \<open>Where the five numbers change\<close>

lemma scalars_print [simp]: "scalars (print m s) = scalars s"
  by (simp add: scalars_def)

lemma read_panel_scalars:
  "scalars (locals_of (read_panel pf l ws s)) = scalars s"
  by (simp add: read_panel_def locals_of_def Let_def scalars_def split: sum.splits)

lemma scan_keywords_absent:
  "\<forall>k \<in> set ks. k \<notin> set ws \<Longrightarrow> scan_keywords pf ws s ks = Inr s"
  by (induction ks) (simp_all add: keyword_step_def)

lemma process_line_panel_mode:
  assumes "\<not> in_header s"
  shows "scalars (locals_of (process_line pf s l)) = scalars s \<and>
         \<not> in_header (locals_of (process_line pf s l))"
  using assms read_panel_scalars [of pf l "strip_split l" s]
    read_panel_in_header [of pf l "strip_split l" s]
  by (simp add: process_line_def Let_def locals_of_def)

lemma sweep_panel_mode:
  "\<not> in_header s \<Longrightarrow> scalars (locals_of (sweep pf s ls)) = scalars s"
proof (induction ls arbitrary: s)
  case Nil
  then show ?case by (simp add: locals_of_def)
next
  case (Cons l ls)
  show ?case
  proof (cases "process_line pf s l")
    case (Inl a)
    then show ?thesis using process_line_panel_mode [OF Cons.prems, of pf l] by simp
  next
    case (Inr s1)
    then show ?thesis
      using process_line_panel_mode [OF Cons.prems, of pf l] Cons.IH [of s1]
      by (simp add: locals_of_def)
  qed
qed

lemma sweep_unlabelled:
  assumes "\<forall>l \<in> set (header_region ls). \<forall>k \<in> set keyword_list. k \<notin> set (strip_split l)"
  shows "scalars (locals_of (sweep pf s ls)) = scalars s"
  using assms
proof (induction ls arbitrary: s)
  case Nil
  then show ?case by (simp add: locals_of_def)
next
  case (Cons l ls)
  show ?case
  proof (cases "in_header s")
    case False
    then show ?thesis by (rule sweep_panel_mode)
  next
    case True
    show ?thesis
    proof (cases "length (strip_split l) = 1")
      case one: True
      let ?s1 = "(print ''End of header'' s)\<lparr>in_header := False\<rparr>"
      have "process_line pf s l = Inr ?s1"
        using True one by (simp add: process_line_def)
      moreover have "scalars (locals_of (sweep pf ?s1 ls)) = scalars ?s1"
        by (rule sweep_panel_mode) simp
      moreover have "scalars ?s1 = scalars s" by (simp add: scalars_def)
      ultimately show ?thesis by simp
    next
      case False
      then have "\<forall>k \<in> set keyword_list. k \<notin> set (strip_split l)"
        and rest: "\<forall>l \<in> set (header_region ls). \<forall>k \<in> set keyword_list. k \<notin> set (strip_split l)"
        using Cons.prems by (simp_all add: header_region_def)
      then have "process_line pf s l = Inr s"
        using True False by (simp add: process_line_def scan_keywords_absent)
      then show ?thesis using Cons.IH [OF rest] by simp
    qed
  qed
qed

subsection \<open>Running the model on a given file\<close>

lemmas run_defs =
  import_wamit_gdf_operator_def init_def process_line_def strip_split_def is_space_def
  keyword_list_def keyword_step_def getitem_def assign_def print_def store_def
  decimal_def digit_def read_panel_def float_at_def range_py_4 finish_def
  mirror_x_def mirror_y_def

subsection \<open>A line without a keyword leaves its variable alone\<close>

lemma sweep_append:
  "sweep pf s (xs @ ys) = (case sweep pf s xs of Inl e \<Rightarrow> Inl e | Inr s' \<Rightarrow> sweep pf s' ys)"
  by (induction xs arbitrary: s) (auto split: sum.splits)

lemma variable_print [simp]: "variable K (print m s) = variable K s"
  by (simp add: variable_def)

lemma variable_store_other:
  "K \<in> set keyword_list \<Longrightarrow> k \<noteq> K \<Longrightarrow> variable K (store k x s) = variable K s"
  by (auto simp: variable_def store_def keyword_list_def)

lemma keyword_step_keeps_variable:
  assumes "K \<in> set keyword_list" "K \<notin> set ws"
  shows "variable K (locals_of (keyword_step pf ws s k)) = variable K s"
proof -
  have "variable K (locals_of (assign pf k v s)) = variable K s" if "k \<noteq> K" for v
    using that assms(1)
    by (simp add: assign_def locals_of_def Let_def variable_store_other split: option.splits)
  moreover have "k \<noteq> K" if "k \<in> set ws" using that assms(2) by auto
  ultimately show ?thesis
    using keyword_step_cases [of pf ws s k]
    by (cases "k \<in> set ws") (auto simp: locals_of_def keyword_step_def)
qed

lemma scan_keywords_keeps_variable:
  assumes "K \<in> set keyword_list" "K \<notin> set ws"
  shows "variable K (locals_of (scan_keywords pf ws s ks)) = variable K s"
proof (induction ks arbitrary: s)
  case Nil
  then show ?case by (simp add: locals_of_def)
next
  case (Cons k ks)
  show ?case
  proof (cases "keyword_step pf ws s k")
    case (Inl e)
    then show ?thesis using keyword_step_keeps_variable [OF assms, of pf s k] by simp
  next
    case (Inr s')
    then show ?thesis
      using keyword_step_keeps_variable [OF assms, of pf s k] Cons.IH [of s']
      by (simp add: locals_of_def)
  qed
qed

lemma read_panel_keeps_variable:
  "variable K (locals_of (read_panel pf l ws s)) = variable K s"
  by (simp add: read_panel_def locals_of_def Let_def variable_def split: sum.splits)

lemma process_line_keeps_variable:
  assumes "K \<in> set keyword_list" "K \<notin> set (strip_split l)"
  shows "variable K (locals_of (process_line pf s l)) = variable K s"
proof -
  have "variable K ((print ''End of header'' s)\<lparr>in_header := False\<rparr>) = variable K s"
    by (simp add: variable_def)
  then show ?thesis
    using scan_keywords_keeps_variable [OF assms, of pf s keyword_list]
      read_panel_keeps_variable [of K pf l "strip_split l" s]
    by (simp add: process_line_def Let_def locals_of_def)
qed

lemma sweep_keeps_variable:
  assumes "K \<in> set keyword_list" "\<forall>l \<in> set ls. K \<notin> set (strip_split l)"
  shows "variable K (locals_of (sweep pf s ls)) = variable K s"
  using assms(2)
proof (induction ls arbitrary: s)
  case Nil
  then show ?case by (simp add: locals_of_def)
next
  case (Cons l ls)
  have step: "variable K (locals_of (process_line pf s l)) = variable K s"
    using process_line_keeps_variable [OF assms(1), of l pf s] Cons.prems by simp
  show ?case
  proof (cases "process_line pf s l")
    case (Inl e)
    then show ?thesis using step by simp
  next
    case (Inr s')
    then show ?thesis using step Cons.IH [of s'] Cons.prems by (simp add: locals_of_def)
  qed
qed

lemma not_keyword:
  assumes "a \<notin> set keyword_list"
  shows "a \<noteq> ''ULEN''" "a \<noteq> ''GRAV''" "a \<noteq> ''ISX''" "a \<noteq> ''ISY''" "a \<noteq> ''NPAN''"
    "''ULEN'' \<noteq> a" "''GRAV'' \<noteq> a" "''ISX'' \<noteq> a" "''ISY'' \<noteq> a" "''NPAN'' \<noteq> a"
  using assms by (auto simp: keyword_list_def)

lemma labelled_ulen_grav:
  assumes "in_header s" "strip_split l = [a, b, ''ULEN'', ''GRAV'']"
    "a \<notin> set keyword_list" "b \<notin> set keyword_list" "pf a = Some u" "pf b = Some g"
  shows "process_line pf s l =
           Inr (s\<lparr>ulen := u, grav := g,
                   console := console s @ [''ULEN: '' @ a, ''GRAV: '' @ b]\<rparr>)"
  using assms(1,2,5,6) not_keyword [OF assms(3)] not_keyword [OF assms(4)]
  by (simp add: process_line_def keyword_list_def keyword_step_def getitem_def assign_def
      print_def store_def)

lemma labelled_isx_isy:
  assumes "in_header s" "strip_split l = [a, b, ''ISX'', ''ISY'']"
    "a \<notin> set keyword_list" "b \<notin> set keyword_list" "pf a = Some x" "pf b = Some y"
  shows "process_line pf s l =
           Inr (s\<lparr>isx := x, isy := y,
                   console := console s @ [''ISX: '' @ a, ''ISY: '' @ b]\<rparr>)"
  using assms(1,2,5,6) not_keyword [OF assms(3)] not_keyword [OF assms(4)]
  by (simp add: process_line_def keyword_list_def keyword_step_def getitem_def assign_def
      print_def store_def)

subsection \<open>The import of a file cut at a header line\<close>

lemma import_after_line:
  assumes "sweep pf init pre = Inr s0" "process_line pf s0 l = Inr s1"
  shows "import_wamit_gdf_operator pf (pre @ l # post) =
           (case sweep pf s1 post of Inl (e, s) \<Rightarrow> Inl (e, console s) | Inr s \<Rightarrow> Inr (finish s))"
  using assms by (simp add: import_wamit_gdf_operator_def sweep_append)

lemma import_after_line_Inl:
  assumes "sweep pf init pre = Inr s0" "process_line pf s0 l = Inr s1"
    "import_wamit_gdf_operator pf (pre @ l # post) = Inl (e, out)"
  shows "\<exists>l' \<in> set post. \<exists>tok \<in> set (strip_split l'). e = ValueError tok \<and> pf tok = None"
proof -
  from assms obtain s where "sweep pf s1 post = Inl (e, s)"
    by (auto simp: import_after_line split: sum.splits)
  then show ?thesis by (rule sweep_Inl)
qed

lemma import_after_line_Inr:
  assumes "sweep pf init pre = Inr s0" "process_line pf s0 l = Inr s1"
    "import_wamit_gdf_operator pf (pre @ l # post) = Inr r"
  shows "\<exists>s. sweep pf s1 post = Inr s \<and> r = finish s"
  using assms by (auto simp: import_after_line split: sum.splits)

subsection \<open>A line of twelve numbers\<close>

lemma float_at_numeric:
  assumes "map pf ws = map Some cs" "0 \<le> j" "j < int (length ws)"
  shows "float_at pf ws j = Inr (cs ! nat j)"
proof -
  have "nat j < length ws" using assms(2,3) by simp
  then have "pf (ws ! nat j) = Some (cs ! nat j)"
    using assms(1) by (metis length_map nth_map)
  then show ?thesis using assms(2,3) by (simp add: float_at_def getitem_def)
qed

lemma triples_numeric:
  assumes "map pf ws = map Some cs" "length ws = 12"
  shows "triples pf ws [0, 3, 6, 9] =
           Inr [(cs ! 0, cs ! 1, cs ! 2), (cs ! 3, cs ! 4, cs ! 5),
                (cs ! 6, cs ! 7, cs ! 8), (cs ! 9, cs ! 10, cs ! 11)]"
  using assms(2) by (simp add: float_at_numeric [OF assms(1)])

lemma read_panel_numeric:
  assumes "map pf ws = map Some cs" "length ws = 12"
  shows "read_panel pf l ws s =
           Inr (s\<lparr>console := console s @ [''Vertex Data: '' @ l],
                   vertices := vertices s @
                     [(cs ! 0, cs ! 1, cs ! 2), (cs ! 3, cs ! 4, cs ! 5),
                      (cs ! 6, cs ! 7, cs ! 8), (cs ! 9, cs ! 10, cs ! 11)],
                   faces := faces s @
                     [[int (length (vertices s)), int (length (vertices s)) + 1,
                       int (length (vertices s)) + 2, int (length (vertices s)) + 3]]\<rparr>)"
  unfolding read_panel_def triples_numeric [OF assms]
  by (simp add: Let_def print_def range_py_4)

lemma read_panel_extends:
  "\<exists>vs fs. vertices (locals_of (read_panel pf l ws s)) = vertices s @ vs \<and>
           faces (locals_of (read_panel pf l ws s)) = faces s @ fs"
  by (simp add: read_panel_def locals_of_def Let_def split: sum.splits)

lemma process_line_extends:
  "\<exists>vs fs. vertices (locals_of (process_line pf s l)) = vertices s @ vs \<and>
           faces (locals_of (process_line pf s l)) = faces s @ fs"
  using scan_keywords_mesh [of pf "strip_split l" s keyword_list]
    read_panel_extends [of pf l "strip_split l" s]
  by (simp add: process_line_def Let_def locals_of_def)

lemma sweep_extends:
  "\<exists>vs fs. vertices (locals_of (sweep pf s ls)) = vertices s @ vs \<and>
           faces (locals_of (sweep pf s ls)) = faces s @ fs"
proof (induction ls arbitrary: s)
  case Nil
  then show ?case by (simp add: locals_of_def)
next
  case (Cons l ls)
  obtain vs fs where step: "vertices (locals_of (process_line pf s l)) = vertices s @ vs"
      "faces (locals_of (process_line pf s l)) = faces s @ fs"
    using process_line_extends by blast
  show ?case
  proof (cases "process_line pf s l")
    case (Inl e)
    then show ?thesis using step by simp
  next
    case (Inr s')
    obtain vs' fs' where "vertices (locals_of (sweep pf s' ls)) = vertices s' @ vs'"
      "faces (locals_of (sweep pf s' ls)) = faces s' @ fs'"
      using Cons.IH by blast
    then show ?thesis using step Inr by (simp add: locals_of_def)
  qed
qed

subsection \<open>The variable npan is written and never read\<close>

lemma import_result_of: "import_wamit_gdf_operator pf ls = result_of (sweep pf init ls)"
  by (simp add: import_wamit_gdf_operator_def result_of_def)

lemma result_of_set_npan: "result_of (set_npan n r) = result_of r"
  by (auto simp: result_of_def set_npan_def finish_def mirror_x_def mirror_y_def split: sum.splits)

lemma set_npan_twice [simp]: "set_npan n (set_npan m r) = set_npan n r"
  by (auto simp: set_npan_def split: sum.splits)

lemma assign_npan:
  fixes s :: "'v locals"
  shows "\<exists>m. assign pf k v (s\<lparr>npan := n\<rparr>) = set_npan m (assign pf k v s)"
proof (cases "k = ''NPAN''")
  case True
  show ?thesis
  proof (cases "pf v")
    case None
    then have "assign pf k v (s\<lparr>npan := n\<rparr>) = set_npan n (assign pf k v s)"
      by (simp add: assign_def set_npan_def print_def)
    then show ?thesis ..
  next
    case (Some x)
    then have "assign pf k v (s\<lparr>npan := n\<rparr>) = set_npan x (assign pf k v s)"
      using True by (simp add: assign_def set_npan_def print_def store_def keyword_list_def)
    then show ?thesis ..
  qed
next
  case False
  then have "assign pf k v (s\<lparr>npan := n\<rparr>) = set_npan n (assign pf k v s)"
    by (auto simp: assign_def set_npan_def print_def store_def Let_def split: option.splits)
  then show ?thesis ..
qed

lemma keyword_step_npan:
  fixes s :: "'v locals"
  shows "\<exists>m. keyword_step pf ws (s\<lparr>npan := n\<rparr>) k = set_npan m (keyword_step pf ws s k)"
proof -
  have "keyword_step pf ws t k = Inr t \<and> keyword_step pf ws s k = Inr s \<or>
        (\<exists>v. keyword_step pf ws t k = assign pf k v t \<and> keyword_step pf ws s k = assign pf k v s)"
    for t :: "'v locals"
  proof (cases "k \<in> set ws")
    case False
    then show ?thesis by (simp add: keyword_step_def)
  next
    case True
    then obtain i where i: "index ws k = Inr i" "i < length ws"
      using index_present by blast
    then obtain v where "getitem ws (int i - int (length ws) div 2) = Inr v"
      using getitem_value_slot by blast
    with True i show ?thesis by (auto simp: keyword_step_def Let_def)
  qed
  from this [of "s\<lparr>npan := n\<rparr>"] show ?thesis
  proof
    assume "keyword_step pf ws (s\<lparr>npan := n\<rparr>) k = Inr (s\<lparr>npan := n\<rparr>) \<and> keyword_step pf ws s k = Inr s"
    then have "keyword_step pf ws (s\<lparr>npan := n\<rparr>) k = set_npan n (keyword_step pf ws s k)"
      by (simp add: set_npan_def)
    then show ?thesis ..
  next
    assume "\<exists>v. keyword_step pf ws (s\<lparr>npan := n\<rparr>) k = assign pf k v (s\<lparr>npan := n\<rparr>) \<and>
                keyword_step pf ws s k = assign pf k v s"
    then show ?thesis using assign_npan by metis
  qed
qed

lemma scan_keywords_npan:
  fixes s :: "'v locals"
  shows "\<exists>m. scan_keywords pf ws (s\<lparr>npan := n\<rparr>) ks = set_npan m (scan_keywords pf ws s ks)"
proof (induction ks arbitrary: s n)
  case Nil
  have "scan_keywords pf ws (s\<lparr>npan := n\<rparr>) [] = set_npan n (scan_keywords pf ws s [])"
    by (simp add: set_npan_def)
  then show ?case ..
next
  case (Cons k ks)
  obtain m where m: "keyword_step pf ws (s\<lparr>npan := n\<rparr>) k = set_npan m (keyword_step pf ws s k)"
    using keyword_step_npan [where pf = pf and ws = ws and s = s and n = n and k = k] by (elim exE)
  show ?case
  proof (cases "keyword_step pf ws s k")
    case (Inl e)
    then have "scan_keywords pf ws (s\<lparr>npan := n\<rparr>) (k # ks) = set_npan m (scan_keywords pf ws s (k # ks))"
      using m by (auto simp: set_npan_def split: prod.splits)
    then show ?thesis ..
  next
    case (Inr s')
    then have "scan_keywords pf ws (s\<lparr>npan := n\<rparr>) (k # ks) = scan_keywords pf ws (s'\<lparr>npan := m\<rparr>) ks"
      and "scan_keywords pf ws s (k # ks) = scan_keywords pf ws s' ks"
      using m by (simp_all add: set_npan_def)
    then show ?thesis using Cons.IH [where s = s' and n = m] by simp
  qed
qed

lemma read_panel_npan:
  fixes s :: "'v locals"
  shows "read_panel pf l ws (s\<lparr>npan := n\<rparr>) = set_npan n (read_panel pf l ws s)"
  by (simp add: read_panel_def set_npan_def print_def Let_def split: sum.splits)

lemma process_line_npan:
  fixes s :: "'v locals"
  shows "\<exists>m. process_line pf (s\<lparr>npan := n\<rparr>) l = set_npan m (process_line pf s l)"
proof (cases "in_header s \<and> length (strip_split l) \<noteq> 1")
  case True
  then show ?thesis
    using scan_keywords_npan [where pf = pf and ws = "strip_split l" and s = s and n = n and ks = keyword_list]
    by (simp add: process_line_def)
next
  case False
  then have "process_line pf (s\<lparr>npan := n\<rparr>) l = set_npan n (process_line pf s l)"
    by (auto simp: process_line_def read_panel_npan Let_def) (simp_all add: set_npan_def print_def)
  then show ?thesis ..
qed

lemma sweep_npan:
  fixes s :: "'v locals"
  shows "\<exists>m. sweep pf (s\<lparr>npan := n\<rparr>) ls = set_npan m (sweep pf s ls)"
proof (induction ls arbitrary: s n)
  case Nil
  have "sweep pf (s\<lparr>npan := n\<rparr>) [] = set_npan n (sweep pf s [])"
    by (simp add: set_npan_def)
  then show ?case ..
next
  case (Cons l ls)
  obtain m where m: "process_line pf (s\<lparr>npan := n\<rparr>) l = set_npan m (process_line pf s l)"
    using process_line_npan [where pf = pf and s = s and n = n and l = l] by (elim exE)
  show ?case
  proof (cases "process_line pf s l")
    case (Inl e)
    then have "sweep pf (s\<lparr>npan := n\<rparr>) (l # ls) = set_npan m (sweep pf s (l # ls))"
      using m by (auto simp: set_npan_def split: prod.splits)
    then show ?thesis ..
  next
    case (Inr s')
    then have "sweep pf (s\<lparr>npan := n\<rparr>) (l # ls) = sweep pf (s'\<lparr>npan := m\<rparr>) ls"
      and "sweep pf s (l # ls) = sweep pf s' ls"
      using m by (simp_all add: set_npan_def)
    then show ?thesis using Cons.IH [where s = s' and n = m] by simp
  qed
qed

section \<open>The claims\<close>

subsection \<open>C1: a panel spread over several lines\<close>

text \<open>
  Claim C1 says that the twelve numbers of a panel are collected across line breaks, so
  that a panel written on four lines of three numbers is read as one panel. The format
  quoted at the head of the source says the same. The importer does not do it: outside
  the header it reads a line only if the line has exactly twelve tokens. Below, the
  same panel in two files: on four lines it is lost without a message and the mesh is
  empty, on one line it is read.
\<close>

theorem panel_on_four_lines_is_dropped:
  "import_wamit_gdf_operator decimal
     [''1 body structure\<newline>'', ''1 9.80665 ULEN GRAV\<newline>'', ''0 0 ISX ISY\<newline>'',
      ''1\<newline>'', ''0 0 0\<newline>'', ''1 0 0\<newline>'', ''1 1 0\<newline>'', ''0 1 0\<newline>'']
   = Inr \<lparr>printed = [''Hello World'', ''ULEN: 1'', ''GRAV: 9.80665'', ''ISX: 0'', ''ISY: 0'',
                      ''End of header'', ''WAMIT GDF file imported successfully.''],
          host_calls = [],
          mesh_vertices = [],
          mesh_faces = [],
          obj_scale = (1, 1, 1)\<rparr> \<and>
   import_wamit_gdf_operator decimal
     [''1 body structure\<newline>'', ''1 9.80665 ULEN GRAV\<newline>'', ''0 0 ISX ISY\<newline>'',
      ''1\<newline>'', ''0 0 0 1 0 0 1 1 0 0 1 0\<newline>'']
   = Inr \<lparr>printed = [''Hello World'', ''ULEN: 1'', ''GRAV: 9.80665'', ''ISX: 0'', ''ISY: 0'',
                      ''End of header'', ''Vertex Data: 0 0 0 1 0 0 1 1 0 0 1 0\<newline>'',
                      ''WAMIT GDF file imported successfully.''],
          host_calls = [],
          mesh_vertices = [(0, 0, 0), (1, 0, 0), (1, 1, 0), (0, 1, 0)],
          mesh_faces = [[0, 1, 2, 3]],
          obj_scale = (1, 1, 1)\<rparr>"
  by (simp add: run_defs)

subsection \<open>C2: symmetry indices outside 0 and 1\<close>

text \<open>
  Claim C2 says that a symmetry index outside 0 and 1 is a fatal format error and that no
  model comes out. The importer has no such check: with the symmetry line
  \<^verbatim>\<open>2 0 ISX ISY\<close> it completes and hands over the mesh.
\<close>

theorem symmetry_two_is_imported:
  "import_wamit_gdf_operator decimal
     [''1 body structure\<newline>'', ''1 9.80665 ULEN GRAV\<newline>'', ''2 0 ISX ISY\<newline>'',
      ''1\<newline>'', ''0 0 0 1 0 0 1 1 0 0 1 0\<newline>'']
   = Inr \<lparr>printed = [''Hello World'', ''ULEN: 1'', ''GRAV: 9.80665'', ''ISX: 2'', ''ISY: 0'',
                      ''End of header'', ''Vertex Data: 0 0 0 1 0 0 1 1 0 0 1 0\<newline>'',
                      ''WAMIT GDF file imported successfully.''],
          host_calls = [],
          mesh_vertices = [(0, 0, 0), (1, 0, 0), (1, 1, 0), (0, 1, 0)],
          mesh_faces = [[0, 1, 2, 3]],
          obj_scale = (1, 1, 1)\<rparr>"
  by (simp add: run_defs)

text \<open>
  Claim C2, amended: the values of ISX and ISY are not checked against a range. Take a
  file cut in three: lines read without an exception and ending in the header, then a
  line \<^verbatim>\<open>a b ISX ISY\<close> whose tokens \<open>a\<close> and \<open>b\<close> are no keywords and are numbers
  \<open>x\<close> and \<open>y\<close> (any numbers), then lines none of which has the token ISX or the
  token ISY. The import of the file can only fail with the \<^verbatim>\<open>ValueError\<close> of a
  token of the third part that is not a number; when it completes, its mirror calls
  are those for x exactly when \<open>x = 1\<close>, followed by those for y exactly when
  \<open>y = 1\<close>: any other value is taken as no symmetry.
\<close>

theorem symmetry_values_are_not_checked:
  fixes pf :: "string \<Rightarrow> ('v::{zero,one}) option"
  assumes "sweep pf init pre = Inr s0" and "in_header s0"
    and "strip_split l = [a, b, ''ISX'', ''ISY'']"
    and "a \<notin> set keyword_list" and "b \<notin> set keyword_list"
    and "pf a = Some x" and "pf b = Some y"
    and "\<forall>l' \<in> set post. ''ISX'' \<notin> set (strip_split l') \<and> ''ISY'' \<notin> set (strip_split l')"
  shows "(\<forall>e out. import_wamit_gdf_operator pf (pre @ l # post) = Inl (e, out) \<longrightarrow>
            (\<exists>l' \<in> set post. \<exists>tok \<in> set (strip_split l'). e = ValueError tok \<and> pf tok = None)) \<and>
         (\<forall>r. import_wamit_gdf_operator pf (pre @ l # post) = Inr r \<longrightarrow>
            host_calls r =
              (if x = 1 then [Modifier_add ''MIRROR'', Use_axis 0] else []) @
              (if y = 1 then [Modifier_add ''MIRROR'', Use_axis 1] else []))"
proof -
  let ?s1 = "s0\<lparr>isx := x, isy := y, console := console s0 @ [''ISX: '' @ a, ''ISY: '' @ b]\<rparr>"
  have line: "process_line pf s0 l = Inr ?s1"
    using assms(2-7) by (rule labelled_isx_isy)
  have "host_calls r =
          (if x = 1 then [Modifier_add ''MIRROR'', Use_axis 0] else []) @
          (if y = 1 then [Modifier_add ''MIRROR'', Use_axis 1] else [])"
    if fin: "import_wamit_gdf_operator pf (pre @ l # post) = Inr r" for r
  proof -
    obtain s where s: "sweep pf ?s1 post = Inr s" "r = finish s"
      using import_after_line_Inr [OF assms(1) line fin] by blast
    have "variable ''ISX'' (locals_of (sweep pf ?s1 post)) = variable ''ISX'' ?s1"
      and "variable ''ISY'' (locals_of (sweep pf ?s1 post)) = variable ''ISY'' ?s1"
      using assms(8) by (simp_all add: sweep_keeps_variable keyword_list_def)
    with s have "isx s = x" "isy s = y"
      by (simp_all add: variable_def locals_of_def)
    with \<open>r = finish s\<close> show ?thesis
      by (simp add: finish_def mirror_x_def mirror_y_def)
  qed
  then show ?thesis
    using import_after_line_Inl [OF assms(1) line] by blast
qed

text \<open>The amended claim on a file with the symmetry line \<^verbatim>\<open>-1 1 ISX ISY\<close>.\<close>

theorem symmetry_values_are_not_checked_witness:
  "sweep decimal init [''1 body structure\<newline>'', ''1 9.80665 ULEN GRAV\<newline>'']
     = Inr \<lparr>ulen = 1, grav = 196133 / 20000, isx = 0, isy = 0, npan = 0, vertices = [],
            faces = [], in_header = True,
            console = [''Hello World'', ''ULEN: 1'', ''GRAV: 9.80665'']\<rparr> \<and>
   strip_split ''-1 1 ISX ISY\<newline>'' = [''-1'', ''1'', ''ISX'', ''ISY''] \<and>
   decimal ''-1'' = Some (- 1) \<and> decimal ''1'' = Some 1 \<and>
   import_wamit_gdf_operator decimal
     ([''1 body structure\<newline>'', ''1 9.80665 ULEN GRAV\<newline>''] @ ''-1 1 ISX ISY\<newline>'' #
      [''1\<newline>'', ''0 0 0 1 0 0 1 1 0 0 1 0\<newline>''])
   = Inr \<lparr>printed = [''Hello World'', ''ULEN: 1'', ''GRAV: 9.80665'', ''ISX: -1'', ''ISY: 1'',
                      ''End of header'', ''Vertex Data: 0 0 0 1 0 0 1 1 0 0 1 0\<newline>'',
                      ''Y = 0 is a geometric plane of symmetry'',
                      ''WAMIT GDF file imported successfully.''],
          host_calls = [Modifier_add ''MIRROR'', Use_axis 1],
          mesh_vertices = [(0, 0, 0), (1, 0, 0), (1, 1, 0), (0, 1, 0)],
          mesh_faces = [[0, 1, 2, 3]],
          obj_scale = (1, 1, 1)\<rparr>"
  using symmetry_values_are_not_checked
    [of decimal "[''1 body structure\<newline>'', ''1 9.80665 ULEN GRAV\<newline>'']"
        "\<lparr>ulen = 1, grav = 196133 / 20000, isx = 0, isy = 0, npan = 0, vertices = [],
            faces = [], in_header = True,
            console = [''Hello World'', ''ULEN: 1'', ''GRAV: 9.80665'']\<rparr>"
        "''-1 1 ISX ISY\<newline>''" "''-1''" "''1''" "- 1" 1
        "[''1\<newline>'', ''0 0 0 1 0 0 1 1 0 0 1 0\<newline>'']"]
  by (simp add: run_defs)

subsection \<open>C3: how long the header lasts\<close>

text \<open>
  Claim C3 says that the header state takes exactly one line and is left after it whatever
  the line holds. The sweep does otherwise: after the one line \<^verbatim>\<open>1 body structure\<close>
  it is still in the header, and no variable has changed.
\<close>

theorem first_line_leaves_header_mode_on:
  "sweep decimal init [''1 body structure\<newline>''] = Inr init \<and> in_header (init :: rat locals)"
  by (simp add: run_defs)

text \<open>
  Claim C3, amended: the header is not a state of one line. The one flag
  \<^verbatim>\<open>in_header\<close> covers the whole header region: as long as every line read has two or
  more tokens, the sweep is in the header after them, whether it got through them or
  raised in them; and a header line of two or more tokens with no keyword among them
  changes no variable, so the text of the first line is not stored.
\<close>

theorem header_mode_spans_lines:
  fixes pf :: "string \<Rightarrow> ('v::zero) option"
  shows "((\<forall>l \<in> set lines. 2 \<le> length (strip_split l)) \<longrightarrow>
            in_header (locals_of (sweep pf init lines))) \<and>
         (in_header s0 \<and> 2 \<le> length (strip_split l0) \<and>
          (\<forall>k \<in> set keyword_list. k \<notin> set (strip_split l0)) \<longrightarrow>
            process_line pf s0 l0 = Inr s0)"
proof -
  have "in_header (init :: 'v locals)" by (simp add: init_def)
  then have "(\<forall>l \<in> set lines. 2 \<le> length (strip_split l)) \<longrightarrow>
               in_header (locals_of (sweep pf init lines))"
    by (simp add: sweep_stays_in_header)
  moreover have "in_header s0 \<and> 2 \<le> length (strip_split l0) \<and>
          (\<forall>k \<in> set keyword_list. k \<notin> set (strip_split l0)) \<longrightarrow>
            process_line pf s0 l0 = Inr s0"
    by (auto simp: process_line_def scan_keywords_absent)
  ultimately show ?thesis by blast
qed

text \<open>
  The amended claim on the first three lines of a labelled file: three, four and four
  tokens, and the sweep is in the header after them; the first line changes nothing.
\<close>

theorem header_mode_spans_lines_witness:
  "length (strip_split ''1 body structure\<newline>'') = 3 \<and>
   length (strip_split ''1 9.80665 ULEN GRAV\<newline>'') = 4 \<and>
   length (strip_split ''0 0 ISX ISY\<newline>'') = 4 \<and>
   in_header (locals_of (sweep decimal init
     [''1 body structure\<newline>'', ''1 9.80665 ULEN GRAV\<newline>'', ''0 0 ISX ISY\<newline>''])) \<and>
   in_header (init :: rat locals) \<and>
   process_line decimal init ''1 body structure\<newline>'' = Inr init"
  using header_mode_spans_lines
    [where pf = decimal
       and lines = "[''1 body structure\<newline>'', ''1 9.80665 ULEN GRAV\<newline>'',
                     ''0 0 ISX ISY\<newline>'']"
       and ?s0.0 = init and ?l0.0 = "''1 body structure\<newline>''"]
  by (simp add: run_defs locals_of_def)

subsection \<open>C4: a length scale that is not positive\<close>

text \<open>
  Claim C4 says that a ULEN at or below zero is reported as an error and never comes out
  in a model. The importer has no such check: with \<^verbatim>\<open>-2.5 9.80665 ULEN GRAV\<close> it
  completes and scales the object by \<open>-5/2\<close>.
\<close>

theorem negative_ulen_is_imported:
  "import_wamit_gdf_operator decimal
     [''1 body structure\<newline>'', ''-2.5 9.80665 ULEN GRAV\<newline>'', ''0 0 ISX ISY\<newline>'',
      ''1\<newline>'', ''0 0 0 1 0 0 1 1 0 0 1 0\<newline>'']
   = Inr \<lparr>printed = [''Hello World'', ''ULEN: -2.5'', ''GRAV: 9.80665'', ''ISX: 0'', ''ISY: 0'',
                      ''End of header'', ''Vertex Data: 0 0 0 1 0 0 1 1 0 0 1 0\<newline>'',
                      ''WAMIT GDF file imported successfully.''],
          host_calls = [],
          mesh_vertices = [(0, 0, 0), (1, 0, 0), (1, 1, 0), (0, 1, 0)],
          mesh_faces = [[0, 1, 2, 3]],
          obj_scale = (- 5 / 2, - 5 / 2, - 5 / 2)\<rparr>"
  by (simp add: run_defs)

text \<open>
  Claim C4, amended: the value of ULEN is not checked. Take a file cut in three: lines
  read without an exception and ending in the header, then a line
  \<^verbatim>\<open>a b ULEN GRAV\<close> whose tokens \<open>a\<close> and \<open>b\<close> are numbers \<open>u\<close> and \<open>g\<close> (any numbers,
  positive or not), then lines without the token ULEN. The import of the file can only
  fail with the \<^verbatim>\<open>ValueError\<close> of a token of the third part that is not a number;
  when it completes, the scale of the object is \<open>(u, u, u)\<close>.
\<close>

theorem ulen_is_not_checked:
  fixes pf :: "string \<Rightarrow> ('v::{zero,one}) option"
  assumes "sweep pf init pre = Inr s0" and "in_header s0"
    and "strip_split l = [a, b, ''ULEN'', ''GRAV'']"
    and "a \<notin> set keyword_list" and "b \<notin> set keyword_list"
    and "pf a = Some u" and "pf b = Some g"
    and "\<forall>l' \<in> set post. ''ULEN'' \<notin> set (strip_split l')"
  shows "(\<forall>e out. import_wamit_gdf_operator pf (pre @ l # post) = Inl (e, out) \<longrightarrow>
            (\<exists>l' \<in> set post. \<exists>tok \<in> set (strip_split l'). e = ValueError tok \<and> pf tok = None)) \<and>
         (\<forall>r. import_wamit_gdf_operator pf (pre @ l # post) = Inr r \<longrightarrow> obj_scale r = (u, u, u))"
proof -
  let ?s1 = "s0\<lparr>ulen := u, grav := g, console := console s0 @ [''ULEN: '' @ a, ''GRAV: '' @ b]\<rparr>"
  have line: "process_line pf s0 l = Inr ?s1"
    using assms(2-7) by (rule labelled_ulen_grav)
  have "obj_scale r = (u, u, u)"
    if fin: "import_wamit_gdf_operator pf (pre @ l # post) = Inr r" for r
  proof -
    obtain s where s: "sweep pf ?s1 post = Inr s" "r = finish s"
      using import_after_line_Inr [OF assms(1) line fin] by blast
    have "variable ''ULEN'' (locals_of (sweep pf ?s1 post)) = variable ''ULEN'' ?s1"
      using assms(8) by (simp add: sweep_keeps_variable keyword_list_def)
    with s show ?thesis by (simp add: variable_def locals_of_def finish_def)
  qed
  then show ?thesis
    using import_after_line_Inl [OF assms(1) line] by blast
qed

text \<open>The amended claim on a file with the line \<^verbatim>\<open>0 9.80665 ULEN GRAV\<close>.\<close>

theorem ulen_is_not_checked_witness:
  "sweep decimal init [''1 body structure\<newline>''] = Inr init \<and>
   in_header (init :: rat locals) \<and>
   strip_split ''0 9.80665 ULEN GRAV\<newline>'' = [''0'', ''9.80665'', ''ULEN'', ''GRAV''] \<and>
   decimal ''0'' = Some 0 \<and> decimal ''9.80665'' = Some (196133 / 20000) \<and>
   import_wamit_gdf_operator decimal
     ([''1 body structure\<newline>''] @ ''0 9.80665 ULEN GRAV\<newline>'' #
      [''0 0 ISX ISY\<newline>'', ''1\<newline>'', ''0 0 0 1 0 0 1 1 0 0 1 0\<newline>''])
   = Inr \<lparr>printed = [''Hello World'', ''ULEN: 0'', ''GRAV: 9.80665'', ''ISX: 0'', ''ISY: 0'',
                      ''End of header'', ''Vertex Data: 0 0 0 1 0 0 1 1 0 0 1 0\<newline>'',
                      ''WAMIT GDF file imported successfully.''],
          host_calls = [],
          mesh_vertices = [(0, 0, 0), (1, 0, 0), (1, 1, 0), (0, 1, 0)],
          mesh_faces = [[0, 1, 2, 3]],
          obj_scale = (0, 0, 0)\<rparr>"
  using ulen_is_not_checked
    [of decimal "[''1 body structure\<newline>'']" init
        "''0 9.80665 ULEN GRAV\<newline>''" "''0''" "''9.80665''" 0 "196133 / 20000"
        "[''0 0 ISX ISY\<newline>'', ''1\<newline>'', ''0 0 0 1 0 0 1 1 0 0 1 0\<newline>'']"]
  by (simp add: run_defs)

subsection \<open>C5: panels without area\<close>

text \<open>
  Claim C5 says that a panel whose area is below \<^verbatim>\<open>ulen^2 * 1e-10\<close> gets a fatal
  geometric error. The importer computes no area: with ULEN 1 it takes the panel whose
  four vertices all are the origin, which has area 0 by any formula.
\<close>

theorem panel_without_area_is_imported:
  "import_wamit_gdf_operator decimal
     [''1 body structure\<newline>'', ''1 9.80665 ULEN GRAV\<newline>'', ''0 0 ISX ISY\<newline>'',
      ''1\<newline>'', ''0 0 0 0 0 0 0 0 0 0 0 0\<newline>'']
   = Inr \<lparr>printed = [''Hello World'', ''ULEN: 1'', ''GRAV: 9.80665'', ''ISX: 0'', ''ISY: 0'',
                      ''End of header'', ''Vertex Data: 0 0 0 0 0 0 0 0 0 0 0 0\<newline>'',
                      ''WAMIT GDF file imported successfully.''],
          host_calls = [],
          mesh_vertices = [(0, 0, 0), (0, 0, 0), (0, 0, 0), (0, 0, 0)],
          mesh_faces = [[0, 1, 2, 3]],
          obj_scale = (1, 1, 1)\<rparr>"
  by (simp add: run_defs)

text \<open>
  Claim C5, amended: no panel is refused for its geometry. Take a file cut in three:
  lines read without an exception and ending outside the header, then a line of twelve
  tokens that are numbers (any numbers \<open>cs\<close>), then any lines. The import of the file
  can only fail with the \<^verbatim>\<open>ValueError\<close> of a token of the third part that is not a
  number; when it completes, the mesh holds the four vertices read from the line, in
  the order read, and the face that names them.
\<close>

theorem twelve_numbers_make_a_panel:
  fixes pf :: "string \<Rightarrow> ('v::{zero,one}) option"
  assumes "sweep pf init pre = Inr s0" and "\<not> in_header s0"
    and "length (strip_split l) = 12" and "map pf (strip_split l) = map Some cs"
  shows "(\<forall>e out. import_wamit_gdf_operator pf (pre @ l # post) = Inl (e, out) \<longrightarrow>
            (\<exists>l' \<in> set post. \<exists>tok \<in> set (strip_split l'). e = ValueError tok \<and> pf tok = None)) \<and>
         (\<forall>r. import_wamit_gdf_operator pf (pre @ l # post) = Inr r \<longrightarrow>
            (\<exists>vs fs.
               mesh_vertices r = vertices s0 @
                 [(cs ! 0, cs ! 1, cs ! 2), (cs ! 3, cs ! 4, cs ! 5),
                  (cs ! 6, cs ! 7, cs ! 8), (cs ! 9, cs ! 10, cs ! 11)] @ vs \<and>
               mesh_faces r = faces s0 @
                 [[int (length (vertices s0)), int (length (vertices s0)) + 1,
                   int (length (vertices s0)) + 2, int (length (vertices s0)) + 3]] @ fs))"
proof -
  let ?four = "[(cs ! 0, cs ! 1, cs ! 2), (cs ! 3, cs ! 4, cs ! 5),
                (cs ! 6, cs ! 7, cs ! 8), (cs ! 9, cs ! 10, cs ! 11)]"
  let ?face = "[int (length (vertices s0)), int (length (vertices s0)) + 1,
                int (length (vertices s0)) + 2, int (length (vertices s0)) + 3]"
  let ?s1 = "s0\<lparr>console := console s0 @ [''Vertex Data: '' @ l],
                vertices := vertices s0 @ ?four, faces := faces s0 @ [?face]\<rparr>"
  have line: "process_line pf s0 l = Inr ?s1"
    using assms(2,3) read_panel_numeric [OF assms(4,3), of l s0]
    by (simp add: process_line_def)
  have "\<exists>vs fs. mesh_vertices r = vertices s0 @ ?four @ vs \<and> mesh_faces r = faces s0 @ [?face] @ fs"
    if fin: "import_wamit_gdf_operator pf (pre @ l # post) = Inr r" for r
  proof -
    obtain s where s: "sweep pf ?s1 post = Inr s" "r = finish s"
      using import_after_line_Inr [OF assms(1) line fin] by blast
    obtain vs fs where "vertices (locals_of (sweep pf ?s1 post)) = vertices ?s1 @ vs"
      "faces (locals_of (sweep pf ?s1 post)) = faces ?s1 @ fs"
      using sweep_extends by blast
    with s show ?thesis by (simp add: locals_of_def finish_def)
  qed
  then show ?thesis
    using import_after_line_Inl [OF assms(1) line] by blast
qed

text \<open>
  The amended claim on a panel that has collapsed to a segment: its vertices are
  (0,0,0), (1,0,0), (1,0,0), (0,0,0).
\<close>

theorem twelve_numbers_make_a_panel_witness:
  "sweep decimal init [''1 9.80665 ULEN GRAV\<newline>'', ''1\<newline>'']
     = Inr \<lparr>ulen = 1, grav = 196133 / 20000, isx = 0, isy = 0, npan = 0, vertices = [],
            faces = [], in_header = False,
            console = [''Hello World'', ''ULEN: 1'', ''GRAV: 9.80665'', ''End of header'']\<rparr> \<and>
   length (strip_split ''0 0 0 1 0 0 1 0 0 0 0 0\<newline>'') = 12 \<and>
   map decimal (strip_split ''0 0 0 1 0 0 1 0 0 0 0 0\<newline>'')
     = map Some [0, 0, 0, 1, 0, 0, 1, 0, 0, 0, 0, 0] \<and>
   import_wamit_gdf_operator decimal
     ([''1 9.80665 ULEN GRAV\<newline>'', ''1\<newline>''] @ ''0 0 0 1 0 0 1 0 0 0 0 0\<newline>'' # [])
   = Inr \<lparr>printed = [''Hello World'', ''ULEN: 1'', ''GRAV: 9.80665'', ''End of header'',
                      ''Vertex Data: 0 0 0 1 0 0 1 0 0 0 0 0\<newline>'',
                      ''WAMIT GDF file imported successfully.''],
          host_calls = [],
          mesh_vertices = [(0, 0, 0), (1, 0, 0), (1, 0, 0), (0, 0, 0)],
          mesh_faces = [[0, 1, 2, 3]],
          obj_scale = (1, 1, 1)\<rparr>"
  using twelve_numbers_make_a_panel
    [of decimal "[''1 9.80665 ULEN GRAV\<newline>'', ''1\<newline>'']"
        "\<lparr>ulen = 1, grav = 196133 / 20000, isx = 0, isy = 0, npan = 0, vertices = [],
            faces = [], in_header = False,
            console = [''Hello World'', ''ULEN: 1'', ''GRAV: 9.80665'', ''End of header'']\<rparr>"
        "''0 0 0 1 0 0 1 0 0 0 0 0\<newline>''" "[0, 0, 0, 1, 0, 0, 1, 0, 0, 0, 0, 0]" "[]"]
  by (simp add: run_defs)

subsection \<open>C6: the declared number of panels\<close>

text \<open>
  Claim C6 says that a warning is given when the number of panels read differs from the
  declared count. The importer gives none. First file: the count line says 5, one panel
  follows, and the output has the echoes and the closing message only. Second file: the
  labelled count stores 5 in \<^verbatim>\<open>npan\<close>, one face is read, and again nothing else is
  printed.
\<close>

theorem count_mismatch_prints_no_warning:
  "import_wamit_gdf_operator decimal
     [''1 body structure\<newline>'', ''1 9.80665 ULEN GRAV\<newline>'', ''0 0 ISX ISY\<newline>'',
      ''5\<newline>'', ''0 0 0 1 0 0 1 1 0 0 1 0\<newline>'']
   = Inr \<lparr>printed = [''Hello World'', ''ULEN: 1'', ''GRAV: 9.80665'', ''ISX: 0'', ''ISY: 0'',
                      ''End of header'', ''Vertex Data: 0 0 0 1 0 0 1 1 0 0 1 0\<newline>'',
                      ''WAMIT GDF file imported successfully.''],
          host_calls = [],
          mesh_vertices = [(0, 0, 0), (1, 0, 0), (1, 1, 0), (0, 1, 0)],
          mesh_faces = [[0, 1, 2, 3]],
          obj_scale = (1, 1, 1)\<rparr> \<and>
   sweep decimal init
     [''1 9.80665 ULEN GRAV\<newline>'', ''5 NPAN\<newline>'', ''5\<newline>'',
      ''0 0 0 1 0 0 1 1 0 0 1 0\<newline>'']
   = Inr \<lparr>ulen = 1, grav = 196133 / 20000, isx = 0, isy = 0, npan = 5,
          vertices = [(0, 0, 0), (1, 0, 0), (1, 1, 0), (0, 1, 0)],
          faces = [[0, 1, 2, 3]], in_header = False,
          console = [''Hello World'', ''ULEN: 1'', ''GRAV: 9.80665'', ''NPAN: 5'',
                     ''End of header'', ''Vertex Data: 0 0 0 1 0 0 1 1 0 0 1 0\<newline>'']\<rparr> \<and>
   import_wamit_gdf_operator decimal
     [''1 9.80665 ULEN GRAV\<newline>'', ''5 NPAN\<newline>'', ''5\<newline>'',
      ''0 0 0 1 0 0 1 1 0 0 1 0\<newline>'']
   = Inr \<lparr>printed = [''Hello World'', ''ULEN: 1'', ''GRAV: 9.80665'', ''NPAN: 5'',
                      ''End of header'', ''Vertex Data: 0 0 0 1 0 0 1 1 0 0 1 0\<newline>'',
                      ''WAMIT GDF file imported successfully.''],
          host_calls = [],
          mesh_vertices = [(0, 0, 0), (1, 0, 0), (1, 1, 0), (0, 1, 0)],
          mesh_faces = [[0, 1, 2, 3]],
          obj_scale = (1, 1, 1)\<rparr>"
  by (simp add: run_defs)

text \<open>
  Claim C6, amended: the declared count is never compared with the number of panels,
  and a mismatch neither warns nor stops the import. A count line of the positional
  layout (one token, read in the header) only ends the header: the outcome of the
  import, printed lines included, is the same whatever that token is. The variable
  \<^verbatim>\<open>npan\<close>, which a labelled count sets, is never read: with any other value in it, at
  any point of the sweep, the rest of the import has the same outcome.
\<close>

theorem declared_count_is_never_compared:
  fixes pf :: "string \<Rightarrow> ('v::{zero,one}) option"
    and s :: "'v locals"
  shows "(sweep pf init pre = Inr s0 \<and> in_header s0 \<and>
          length (strip_split c) = 1 \<and> length (strip_split c') = 1 \<longrightarrow>
            import_wamit_gdf_operator pf (pre @ c # post)
              = import_wamit_gdf_operator pf (pre @ c' # post)) \<and>
         result_of (sweep pf (s\<lparr>npan := n\<rparr>) lines) = result_of (sweep pf s lines)"
proof -
  have "process_line pf s0 c = process_line pf s0 c'"
    if "in_header s0" "length (strip_split c) = 1" "length (strip_split c') = 1"
    using that by (simp add: process_line_def)
  then have first: "sweep pf init pre = Inr s0 \<and> in_header s0 \<and>
          length (strip_split c) = 1 \<and> length (strip_split c') = 1 \<longrightarrow>
            import_wamit_gdf_operator pf (pre @ c # post)
              = import_wamit_gdf_operator pf (pre @ c' # post)"
    by (simp add: import_wamit_gdf_operator_def sweep_append)
  obtain m where "sweep pf (s\<lparr>npan := n\<rparr>) lines = set_npan m (sweep pf s lines)"
    using sweep_npan [where pf = pf and s = s and n = n and ls = lines] by (elim exE)
  then have "result_of (sweep pf (s\<lparr>npan := n\<rparr>) lines) = result_of (sweep pf s lines)"
    by (simp add: result_of_set_npan)
  with first show ?thesis by blast
qed

text \<open>
  The amended claim on a file with one panel: the count lines 7 and 1 give the same
  outcome, and so do the values 7 and 0 of \<^verbatim>\<open>npan\<close> before the sweep.
\<close>

theorem declared_count_is_never_compared_witness:
  "sweep decimal init [''1 body structure\<newline>'', ''1 9.80665 ULEN GRAV\<newline>'']
     = Inr \<lparr>ulen = 1, grav = 196133 / 20000, isx = 0, isy = 0, npan = 0, vertices = [],
            faces = [], in_header = True,
            console = [''Hello World'', ''ULEN: 1'', ''GRAV: 9.80665'']\<rparr> \<and>
   length (strip_split ''7\<newline>'') = 1 \<and> length (strip_split ''1\<newline>'') = 1 \<and>
   import_wamit_gdf_operator decimal
     ([''1 body structure\<newline>'', ''1 9.80665 ULEN GRAV\<newline>''] @ ''7\<newline>'' #
      [''0 0 0 1 0 0 1 1 0 0 1 0\<newline>''])
   = import_wamit_gdf_operator decimal
     ([''1 body structure\<newline>'', ''1 9.80665 ULEN GRAV\<newline>''] @ ''1\<newline>'' #
      [''0 0 0 1 0 0 1 1 0 0 1 0\<newline>'']) \<and>
   result_of (sweep decimal (init\<lparr>npan := 7\<rparr>) [''1\<newline>'', ''0 0 0 1 0 0 1 1 0 0 1 0\<newline>''])
   = result_of (sweep decimal init [''1\<newline>'', ''0 0 0 1 0 0 1 1 0 0 1 0\<newline>''])"
  using declared_count_is_never_compared
    [where pf = decimal
       and pre = "[''1 body structure\<newline>'', ''1 9.80665 ULEN GRAV\<newline>'']"
       and ?s0.0 = "\<lparr>ulen = 1, grav = 196133 / 20000, isx = 0, isy = 0, npan = 0, vertices = [],
            faces = [], in_header = True,
            console = [''Hello World'', ''ULEN: 1'', ''GRAV: 9.80665'']\<rparr>"
       and c = "''7\<newline>''" and c' = "''1\<newline>''"
       and post = "[''0 0 0 1 0 0 1 1 0 0 1 0\<newline>'']"
       and s = init and n = 7
       and lines = "[''1\<newline>'', ''0 0 0 1 0 0 1 1 0 0 1 0\<newline>'']"]
  by (simp add: run_defs)

subsection \<open>C7: four vertices to a panel\<close>

text \<open>
  Claim C7: in the mesh of a completed import every face names exactly four vertices,
  all different and all present in the list of vertices, and there are four vertices
  (twelve numbers) to a face, whatever the layout of the lines.
\<close>

theorem faces_have_four_vertices:
  assumes "import_wamit_gdf_operator pf lines = Inr r"
  shows "length (mesh_vertices r) = 4 * length (mesh_faces r) \<and>
         (\<forall>f \<in> set (mesh_faces r).
            length f = 4 \<and> distinct f \<and>
            (\<forall>k \<in> set f. 0 \<le> k \<and> k < int (length (mesh_vertices r))))"
proof -
  from assms obtain s where s: "sweep pf init lines = Inr s" and r: "r = finish s"
    by (auto simp: import_wamit_gdf_operator_def split: sum.splits)
  have "quad_mesh (locals_of (sweep pf init lines))"
    by (rule sweep_quad_mesh [OF quad_mesh_init])
  then have qm: "quad_mesh s" using s by (simp add: locals_of_def)
  then have len: "length (vertices s) = 4 * length (faces s)"
    by (simp add: quad_mesh_def)
  have "length f = 4 \<and> distinct f \<and> (\<forall>k \<in> set f. 0 \<le> k \<and> k < int (length (vertices s)))"
    if "f \<in> set (faces s)" for f
  proof -
    from that obtain i where i: "i < length (faces s)" "f = quad i"
      using qm quad_mesh_face [of s] by (metis in_set_conv_nth)
    then show ?thesis using len by (auto simp: quad_def)
  qed
  then show ?thesis using len r by (simp add: finish_def)
qed

text \<open>Claim C7 on a file with a short line and one line of twelve numbers.\<close>

theorem faces_have_four_vertices_witness:
  "import_wamit_gdf_operator decimal
     [''7\<newline>'', ''0 0 0\<newline>'', ''0 0 0 1 0 0 1 1 0 0 1 0\<newline>'']
   = Inr \<lparr>printed = [''Hello World'', ''End of header'',
                      ''Vertex Data: 0 0 0 1 0 0 1 1 0 0 1 0\<newline>'',
                      ''WAMIT GDF file imported successfully.''],
          host_calls = [],
          mesh_vertices = [(0, 0, 0), (1, 0, 0), (1, 1, 0), (0, 1, 0)],
          mesh_faces = [[0, 1, 2, 3]],
          obj_scale = (0, 0, 0)\<rparr> \<and>
   length [(0::rat, 0::rat, 0::rat), (1, 0, 0), (1, 1, 0), (0, 1, 0)] = 4 * length [[0::int, 1, 2, 3]] \<and>
   length [0::int, 1, 2, 3] = 4"
  using faces_have_four_vertices
    [of decimal "[''7\<newline>'', ''0 0 0\<newline>'', ''0 0 0 1 0 0 1 1 0 0 1 0\<newline>'']"
        "\<lparr>printed = [''Hello World'', ''End of header'',
                      ''Vertex Data: 0 0 0 1 0 0 1 1 0 0 1 0\<newline>'',
                      ''WAMIT GDF file imported successfully.''],
          host_calls = [],
          mesh_vertices = [(0, 0, 0), (1, 0, 0), (1, 1, 0), (0, 1, 0)],
          mesh_faces = [[0, 1, 2, 3]],
          obj_scale = (0, 0, 0)\<rparr>"]
  by (simp add: run_defs)

subsection \<open>C9: a header without labels\<close>

text \<open>
  Claim C9: when no line of the header region has one of the tokens ULEN, GRAV, ISX, ISY,
  NPAN, the five numbers keep their initial value 0 to the end of the sweep, so a
  completed import sets the scale (0, 0, 0) and makes no mirror call.
\<close>

theorem unlabelled_header_keeps_defaults:
  fixes pf :: "string \<Rightarrow> ('v::zero_neq_one) option"
  assumes "\<forall>l \<in> set (header_region lines). \<forall>k \<in> set keyword_list. k \<notin> set (strip_split l)"
  shows "(let s = locals_of (sweep pf init lines)
          in ulen s = 0 \<and> grav s = 0 \<and> isx s = 0 \<and> isy s = 0 \<and> npan s = 0) \<and>
         (\<forall>r. import_wamit_gdf_operator pf lines = Inr r \<longrightarrow>
               obj_scale r = (0, 0, 0) \<and> host_calls r = [])"
proof -
  have sc: "scalars (locals_of (sweep pf init lines)) = scalars (init :: 'v locals)"
    using assms by (rule sweep_unlabelled)
  then have zero: "let s = locals_of (sweep pf init lines)
          in ulen s = 0 \<and> grav s = 0 \<and> isx s = 0 \<and> isy s = 0 \<and> npan s = 0"
    by (simp add: scalars_def init_def Let_def)
  have "obj_scale r = (0, 0, 0) \<and> host_calls r = []"
    if "import_wamit_gdf_operator pf lines = Inr r" for r
  proof -
    from that obtain s where s: "sweep pf init lines = Inr s" and r: "r = finish s"
      by (auto simp: import_wamit_gdf_operator_def split: sum.splits)
    with zero have "ulen s = 0" "isx s = 0" "isy s = 0"
      by (simp_all add: locals_of_def Let_def)
    then show ?thesis using r by (simp add: finish_def mirror_x_def mirror_y_def)
  qed
  with zero show ?thesis by blast
qed

text \<open>
  Claim C9 on the positional layout: header, ULEN GRAV, ISX ISY, NPAN, one panel. The
  file declares both symmetries and the length 1; the import mirrors nothing and sets
  the scale (0, 0, 0).
\<close>

theorem unlabelled_header_keeps_defaults_witness:
  "header_region [''1 body structure\<newline>'', ''1 9.80665\<newline>'', ''1 1\<newline>'', ''1\<newline>'',
                  ''0 0 0 1 0 0 1 1 0 0 1 0\<newline>'']
     = [''1 body structure\<newline>'', ''1 9.80665\<newline>'', ''1 1\<newline>''] \<and>
   strip_split ''1 body structure\<newline>'' = [''1'', ''body'', ''structure''] \<and>
   strip_split ''1 9.80665\<newline>'' = [''1'', ''9.80665''] \<and>
   strip_split ''1 1\<newline>'' = [''1'', ''1''] \<and>
   import_wamit_gdf_operator decimal
     [''1 body structure\<newline>'', ''1 9.80665\<newline>'', ''1 1\<newline>'', ''1\<newline>'',
      ''0 0 0 1 0 0 1 1 0 0 1 0\<newline>'']
   = Inr \<lparr>printed = [''Hello World'', ''End of header'',
                      ''Vertex Data: 0 0 0 1 0 0 1 1 0 0 1 0\<newline>'',
                      ''WAMIT GDF file imported successfully.''],
          host_calls = [],
          mesh_vertices = [(0, 0, 0), (1, 0, 0), (1, 1, 0), (0, 1, 0)],
          mesh_faces = [[0, 1, 2, 3]],
          obj_scale = (0, 0, 0)\<rparr>"
  using unlabelled_header_keeps_defaults
    [of "[''1 body structure\<newline>'', ''1 9.80665\<newline>'', ''1 1\<newline>'', ''1\<newline>'',
          ''0 0 0 1 0 0 1 1 0 0 1 0\<newline>'']" decimal]
  by (simp add: run_defs header_region_def)

subsection \<open>C10: vertices and faces go in blocks of four\<close>

text \<open>
  Claim C10: after any prefix of the input (the first \<open>n\<close> lines), whether the sweep
  got through it or raised in it, there are four times as many vertices as faces, face
  \<open>i\<close> is \<open>[4i, 4i+1, 4i+2, 4i+3]\<close>, every index in a face is an index of the vertex
  list, and every vertex belongs to exactly one face.
\<close>

theorem faces_index_vertices_in_blocks_of_four:
  "let s = locals_of (sweep pf init (take n lines))
   in length (vertices s) = 4 * length (faces s) \<and>
      (\<forall>i < length (faces s).
         faces s ! i = [4 * int i, 4 * int i + 1, 4 * int i + 2, 4 * int i + 3]) \<and>
      (\<forall>f \<in> set (faces s). \<forall>k \<in> set f. 0 \<le> k \<and> k < int (length (vertices s))) \<and>
      (\<forall>j < length (vertices s). \<exists>!i. i < length (faces s) \<and> int j \<in> set (faces s ! i))"
proof -
  define s where "s = locals_of (sweep pf init (take n lines))"
  have qm: "quad_mesh s"
    unfolding s_def by (rule sweep_quad_mesh [OF quad_mesh_init])
  have len: "length (vertices s) = 4 * length (faces s)"
    using qm by (simp add: quad_mesh_def)
  have nth: "\<forall>i < length (faces s). faces s ! i = [4 * int i, 4 * int i + 1, 4 * int i + 2, 4 * int i + 3]"
    using qm quad_mesh_face [of s] by (simp add: quad_def)
  have rng: "\<forall>f \<in> set (faces s). \<forall>k \<in> set f. 0 \<le> k \<and> k < int (length (vertices s))"
  proof (intro ballI)
    fix f k assume "f \<in> set (faces s)" "k \<in> set f"
    then obtain i where "i < length (faces s)" "k \<in> set (quad i)"
      using qm quad_mesh_face [of s] by (metis in_set_conv_nth)
    then show "0 \<le> k \<and> k < int (length (vertices s))"
      using len by (auto simp: quad_mem)
  qed
  have own: "\<forall>j < length (vertices s). \<exists>!i. i < length (faces s) \<and> int j \<in> set (faces s ! i)"
    using qm quad_mesh_owner by blast
  show ?thesis
    using len nth rng own unfolding s_def [symmetric] Let_def by blast
qed

text \<open>
  Claim C10 on the first three lines of a file of four: two faces, eight vertices, and
  vertex 5 in exactly one face.
\<close>

theorem faces_index_vertices_in_blocks_of_four_witness:
  "sweep decimal init (take 3 [''7\<newline>'', ''0 0 0 1 0 0 1 1 0 0 1 0\<newline>'',
                               ''1 0 0 2 0 0 2 1 0 1 1 0\<newline>'', ''0 0 1\<newline>''])
   = Inr \<lparr>ulen = 0, grav = 0, isx = 0, isy = 0, npan = 0,
          vertices = [(0, 0, 0), (1, 0, 0), (1, 1, 0), (0, 1, 0),
                      (1, 0, 0), (2, 0, 0), (2, 1, 0), (1, 1, 0)],
          faces = [[0, 1, 2, 3], [4, 5, 6, 7]],
          in_header = False,
          console = [''Hello World'', ''End of header'',
                     ''Vertex Data: 0 0 0 1 0 0 1 1 0 0 1 0\<newline>'',
                     ''Vertex Data: 1 0 0 2 0 0 2 1 0 1 1 0\<newline>'']\<rparr> \<and>
   (\<exists>!i. i < length [[0::int, 1, 2, 3], [4, 5, 6, 7]] \<and> int 5 \<in> set ([[0, 1, 2, 3], [4, 5, 6, 7]] ! i))"
proof -
  let ?ls = "[''7\<newline>'', ''0 0 0 1 0 0 1 1 0 0 1 0\<newline>'',
              ''1 0 0 2 0 0 2 1 0 1 1 0\<newline>'', ''0 0 1\<newline>'']"
  have run: "sweep decimal init (take 3 ?ls)
   = Inr \<lparr>ulen = 0, grav = 0, isx = 0, isy = 0, npan = 0,
          vertices = [(0, 0, 0), (1, 0, 0), (1, 1, 0), (0, 1, 0),
                      (1, 0, 0), (2, 0, 0), (2, 1, 0), (1, 1, 0)],
          faces = [[0, 1, 2, 3], [4, 5, 6, 7]],
          in_header = False,
          console = [''Hello World'', ''End of header'',
                     ''Vertex Data: 0 0 0 1 0 0 1 1 0 0 1 0\<newline>'',
                     ''Vertex Data: 1 0 0 2 0 0 2 1 0 1 1 0\<newline>'']\<rparr>"
    by (simp add: run_defs)
  let ?vs = "[(0::rat, 0::rat, 0::rat), (1, 0, 0), (1, 1, 0), (0, 1, 0),
              (1, 0, 0), (2, 0, 0), (2, 1, 0), (1, 1, 0)]"
  let ?fs = "[[0::int, 1, 2, 3], [4, 5, 6, 7]]"
  have own: "\<forall>j < length ?vs. \<exists>!i. i < length ?fs \<and> int j \<in> set (?fs ! i)"
    using faces_index_vertices_in_blocks_of_four [of decimal 3 ?ls]
    unfolding run by (simp add: locals_of_def Let_def)
  have "\<exists>!i. i < length ?fs \<and> int 5 \<in> set (?fs ! i)"
    by (rule own [rule_format]) simp
  with run show ?thesis by blast
qed

end
